theory Spec2Isabelle
  imports Main "HOL-Library.Sublist"
begin

section \<open>Strings of the runtime\<close>

text \<open>
  A string of the program is a sequence of code units; the model uses \<^typ>\<open>string\<close> and reads
  each \<^typ>\<open>char\<close> as the code unit of the same number, so it covers the texts whose code units
  are below 256 (ISO 8859-1). The library functions \<^verbatim>\<open>trim\<close> and \<^verbatim>\<open>toLowerCase\<close> and the
  regular-expression classes \<^verbatim>\<open>\s\<close>, \<^verbatim>\<open>\d\<close>, \<^verbatim>\<open>[a-zA-Z]\<close> and \<^verbatim>\<open>.\<close> are written out
  for that range.
\<close>

definition LF :: char where "LF = CHR 0x0A"
definition CR :: char where "CR = CHR 0x0D"
definition DQ :: char where "DQ = CHR 0x22"
definition COMMA :: char where "COMMA = CHR 0x2C"
definition PIPE :: char where "PIPE = CHR 0x7C"

definition isSpace :: "char \<Rightarrow> bool" where
  \<comment> \<open>white space and line terminators: TAB, LF, VT, FF, CR, SP, NBSP\<close>
  "isSpace c = (c \<in> set [CHR 0x09, CHR 0x0A, CHR 0x0B, CHR 0x0C, CHR 0x0D, CHR 0x20, CHR 0xA0])"

definition trim :: "string \<Rightarrow> string" where
  "trim s = rev (dropWhile isSpace (rev (dropWhile isSpace s)))"

definition lowerChar :: "char \<Rightarrow> char" where
  "lowerChar c =
     (let n = (of_char c :: nat)
      in if (65 \<le> n \<and> n \<le> 90) \<or> (192 \<le> n \<and> n \<le> 222 \<and> n \<noteq> 215)
         then char_of (n + 32) else c)"

definition toLowerCase :: "string \<Rightarrow> string" where
  "toLowerCase s = map lowerChar s"

definition truthy :: "string option \<Rightarrow> bool" where
  \<comment> \<open>a possibly undefined string used as a condition: defined and not empty\<close>
  "truthy v = (case v of None \<Rightarrow> False | Some s \<Rightarrow> s \<noteq> [])"

definition orEmpty :: "string option \<Rightarrow> string" where
  \<comment> \<open>\<^verbatim>\<open>v ?? ""\<close>\<close>
  "orEmpty v = (case v of None \<Rightarrow> [] | Some s \<Rightarrow> s)"

fun join :: "string \<Rightarrow> string list \<Rightarrow> string" where
  "join sep [] = []"
| "join sep [x] = x"
| "join sep (x # y # ys) = x @ sep @ join sep (y # ys)"

section \<open>CSV decoding: \<^verbatim>\<open>parseCSV\<close>\<close>

record csv_state =
  rows :: "string list list"
  row :: "string list"
  field :: string
  inQuotes :: bool

definition csv_init :: csv_state where
  "csv_init = \<lparr>rows = [], row = [], field = [], inQuotes = False\<rparr>"

definition pushField :: "csv_state \<Rightarrow> csv_state" where
  "pushField s = s\<lparr>row := row s @ [field s], field := []\<rparr>"

definition pushRow :: "csv_state \<Rightarrow> csv_state" where
  "pushRow s = s\<lparr>rows := rows s @ [row s], row := []\<rparr>"

definition endOfLine :: "csv_state \<Rightarrow> csv_state" where
  \<comment> \<open>lines 96 and 97: what a line terminator outside quotes does to the accumulators\<close>
  "endOfLine s =
     (let s1 = pushField s
      in if length (row s1) > 1 \<or> length (rows s1) = 0 then pushRow s1 else s1)"

definition skipLF :: "char \<Rightarrow> string \<Rightarrow> string" where
  \<comment> \<open>line 95: a CR directly followed by LF consumes the LF as well\<close>
  "skipLF c t = (if c = CR \<and> t \<noteq> [] \<and> hd t = LF then tl t else t)"

function scan :: "csv_state \<Rightarrow> string \<Rightarrow> csv_state" where
  "scan s [] = s"
| "scan s (c # t) =
     (if inQuotes s then
        (if c = DQ then
           (if t \<noteq> [] \<and> hd t = DQ then scan (s\<lparr>field := field s @ [DQ]\<rparr>) (tl t)
            else scan (s\<lparr>inQuotes := False\<rparr>) t)
         else scan (s\<lparr>field := field s @ [c]\<rparr>) t)
      else
        (if c = DQ then scan (s\<lparr>inQuotes := True\<rparr>) t
         else if c = COMMA then scan (pushField s) t
         else if c = LF \<or> c = CR then scan (endOfLine s) (skipLF c t)
         else scan (s\<lparr>field := field s @ [c]\<rparr>) t))"
  by pat_completeness auto
termination
  by (relation "measure (\<lambda>(s, t). length t)") (auto simp: skipLF_def)

definition parseRows :: "string \<Rightarrow> string list list" where
  \<comment> \<open>lines 80 to 102: the scan and the last field and row\<close>
  "parseRows text =
     (let s = scan csv_init text
      in if field s \<noteq> [] \<or> row s \<noteq> [] then rows (pushRow (pushField s)) else rows s)"


text \<open>
  An object with string values is an association list in the order in which its keys were first
  set; assigning to a key that is present replaces the value in place. (Keys that are
  array indices, which the runtime lists first, and the key \<^verbatim>\<open>__proto__\<close> are outside the
  model; no header named in the properties below is one.)
\<close>

type_synonym obj = "(string \<times> string) list"

fun objSet :: "obj \<Rightarrow> string \<Rightarrow> string \<Rightarrow> obj" where
  "objSet [] k v = [(k, v)]"
| "objSet ((k', v') # kvs) k v = (if k' = k then (k, v) # kvs else (k', v') # objSet kvs k v)"

definition objGet :: "obj \<Rightarrow> string \<Rightarrow> string option" where
  "objGet ob k = map_of ob k"

definition objValues :: "obj \<Rightarrow> string list" where
  "objValues ob = map snd ob"

fun fillObj :: "string list \<Rightarrow> string list \<Rightarrow> nat \<Rightarrow> obj \<Rightarrow> obj" where
  \<comment> \<open>line 109: \<^verbatim>\<open>header.forEach((h, idx) => obj[h] = rows[r][idx] ?? "")\<close>\<close>
  "fillObj [] r idx ob = ob"
| "fillObj (h # hs) r idx ob =
     fillObj hs r (Suc idx) (objSet ob h (if idx < length r then r ! idx else []))"

definition parseCSV :: "string \<Rightarrow> obj list" where
  "parseCSV text =
     (case parseRows text of
        [] \<Rightarrow> []
      | hdr # body \<Rightarrow>
          (let header = map (\<lambda>h. toLowerCase (trim h)) hdr
           in filter (\<lambda>ob. length (trim (concat (objValues ob))) \<noteq> 0)
                (map (\<lambda>r. fillObj header r 0 []) body)))"

section \<open>Items and CSV encoding: \<^verbatim>\<open>toCSV\<close>\<close>

text \<open>
  The type \<^verbatim>\<open>Item\<close> of the source; an optional field is an \<^typ>\<open>'a option\<close>, \<open>None\<close> for
  \<^verbatim>\<open>undefined\<close>. The field \<^verbatim>\<open>id\<close> is written \<open>id'\<close>.
\<close>

record item =
  id' :: string
  name :: string
  quantity :: "string option"
  unit :: "string option"
  category :: string
  "notes" :: "string option"
  "have" :: "bool option"
  checked :: "bool option"
  createdAt :: "nat option"

definition escapeQuotes :: "string \<Rightarrow> string" where
  \<comment> \<open>\<^verbatim>\<open>replaceAll('"', '""')\<close>\<close>
  "escapeQuotes v = concat (map (\<lambda>c. if c = DQ then [DQ, DQ] else [c]) v)"

definition quoteField :: "string \<Rightarrow> string" where
  "quoteField v = [DQ] @ escapeQuotes v @ [DQ]"

definition boolCell :: "bool option \<Rightarrow> string" where
  "boolCell b = (if b = Some True then ''TRUE'' else ''FALSE'')"

definition csvCells :: "item \<Rightarrow> string list" where
  "csvCells it =
     [name it, orEmpty (quantity it), orEmpty (unit it), category it, orEmpty (notes it),
      boolCell (have it), boolCell (checked it)]"

definition csvHeader :: "string list" where
  "csvHeader = [''name'', ''quantity'', ''unit'', ''category'', ''notes'', ''have'', ''checked'']"

definition toCSV :: "item list \<Rightarrow> string" where
  "toCSV items =
     join [LF] (join [COMMA] csvHeader # map (\<lambda>it. join [COMMA] (map quoteField (csvCells it))) items)"

section \<open>Category normalisation: \<^verbatim>\<open>normalizeCategory\<close>\<close>

definition normalizeCategory :: "string \<Rightarrow> string list \<Rightarrow> string" where
  "normalizeCategory c categories =
     (if c = [] then ''Other''
      else (let t = toLowerCase (trim c)
            in case find (\<lambda>cat. toLowerCase cat = t) categories of
                 Some found \<Rightarrow> found
               | None \<Rightarrow> trim c))"

section \<open>CSV import: \<^verbatim>\<open>importCSV\<close>\<close>

fun firstTruthy :: "string option list \<Rightarrow> string" where
  \<comment> \<open>\<^verbatim>\<open>a || b || ... || ""\<close>\<close>
  "firstTruthy [] = []"
| "firstTruthy (v # vs) = (if truthy v then orEmpty v else firstTruthy vs)"

fun matchesAt :: "string \<Rightarrow> string \<Rightarrow> bool" where
  \<comment> \<open>a lower-case literal matches at the start of the text, ignoring case\<close>
  "matchesAt [] s = True"
| "matchesAt (p # ps) [] = False"
| "matchesAt (p # ps) (c # cs) = (lowerChar c = p \<and> matchesAt ps cs)"

fun truthyTest :: "string \<Rightarrow> bool" where
  \<comment> \<open>\<^verbatim>\<open>/true|yes|y|1/i.test(s)\<close>: some alternative matches at some position\<close>
  "truthyTest [] = False"
| "truthyTest (c # cs) =
     (matchesAt ''true'' (c # cs) \<or> matchesAt ''yes'' (c # cs) \<or> matchesAt ''y'' (c # cs)
      \<or> matchesAt ''1'' (c # cs) \<or> truthyTest cs)"

text \<open>
  \<^verbatim>\<open>uid()\<close> and \<^verbatim>\<open>Date.now()\<close> read the environment; the model takes the value of the
  \<open>k\<close>-th call as \<open>ids k\<close> and \<open>now k\<close>.
\<close>

definition rowToItem :: "(nat \<Rightarrow> string) \<Rightarrow> (nat \<Rightarrow> nat) \<Rightarrow> string list \<Rightarrow> nat \<Rightarrow> obj \<Rightarrow> item" where
  "rowToItem ids now categories k r =
     (let name0 = firstTruthy [objGet r ''item'', objGet r ''name'', objGet r ''product'',
                               objGet r ''ingredient''];
          quantity0 = firstTruthy [objGet r ''qty'', objGet r ''quantity'', objGet r ''amount''];
          unit0 = firstTruthy [objGet r ''unit'', objGet r ''units''];
          categoryRaw = firstTruthy [objGet r ''category'', objGet r ''section'', objGet r ''aisle'',
                                     objGet r ''dept''];
          notes0 = firstTruthy [objGet r ''notes'', objGet r ''note'', objGet r ''details''];
          have0 = truthyTest (firstTruthy [objGet r ''have'']);
          checked0 = truthyTest (firstTruthy [objGet r ''checked''])
      in \<lparr>id' = ids k, name = trim name0, quantity = Some (trim quantity0),
          unit = Some (trim unit0), category = normalizeCategory categoryRaw categories,
          notes = Some (trim notes0), have = Some have0, checked = Some checked0,
          createdAt = Some (now k)\<rparr>)"

definition importCSV_mapped :: "(nat \<Rightarrow> string) \<Rightarrow> (nat \<Rightarrow> nat) \<Rightarrow> string list \<Rightarrow> string \<Rightarrow> item list" where
  \<comment> \<open>lines 225 to 245: the array \<^verbatim>\<open>mapped\<close>\<close>
  "importCSV_mapped ids now categories text =
     filter (\<lambda>x. name x \<noteq> [])
       (map (\<lambda>(k, r). rowToItem ids now categories k r) (enumerate 0 (parseCSV text)))"

definition importCSV :: "(nat \<Rightarrow> string) \<Rightarrow> (nat \<Rightarrow> nat) \<Rightarrow> string list \<Rightarrow> string \<Rightarrow> item list \<Rightarrow> item list" where
  \<comment> \<open>the working collection after the import\<close>
  "importCSV ids now categories text prev =
     (let mapped = importCSV_mapped ids now categories text
      in if mapped \<noteq> [] then mapped @ prev else prev)"


section \<open>Freeform paste import: \<^verbatim>\<open>handlePaste\<close>\<close>

fun consHead :: "char \<Rightarrow> string list \<Rightarrow> string list" where
  "consHead c [] = [[c]]"
| "consHead c (x # xs) = (c # x) # xs"

fun splitOn :: "char \<Rightarrow> string \<Rightarrow> string list" where
  \<comment> \<open>\<^verbatim>\<open>s.split(sep)\<close> for a separator of one character\<close>
  "splitOn sep [] = [[]]"
| "splitOn sep (c # cs) = (if c = sep then [] # splitOn sep cs else consHead c (splitOn sep cs))"

fun splitLines :: "string \<Rightarrow> string list" where
  \<comment> \<open>\<^verbatim>\<open>text.split(/\r?\n/)\<close>\<close>
  "splitLines [] = [[]]"
| "splitLines [c] = (if c = LF then [[], []] else [[c]])"
| "splitLines (c # d # cs) =
     (if c = LF then [] # splitLines (d # cs)
      else if c = CR \<and> d = LF then [] # splitLines cs
      else consHead c (splitLines (d # cs)))"

definition isDigit :: "char \<Rightarrow> bool" where
  "isDigit c = (48 \<le> (of_char c :: nat) \<and> (of_char c :: nat) \<le> 57)"

definition isAlpha :: "char \<Rightarrow> bool" where
  "isAlpha c = ((65 \<le> (of_char c :: nat) \<and> (of_char c :: nat) \<le> 90)
              \<or> (97 \<le> (of_char c :: nat) \<and> (of_char c :: nat) \<le> 122))"

definition isNumChar :: "char \<Rightarrow> bool" where
  \<comment> \<open>the class \<^verbatim>\<open>[\d\/\.]\<close>\<close>
  "isNumChar c = (isDigit c \<or> c = CHR ''/'' \<or> c = CHR ''.'')"

definition isDot :: "char \<Rightarrow> bool" where
  \<comment> \<open>the pattern character \<^verbatim>\<open>.\<close>: anything but a line terminator\<close>
  "isDot c = (c \<noteq> LF \<and> c \<noteq> CR)"

text \<open>
  Line 269 matches \<^verbatim>\<open>/^\s*(\d+[\d\/\.]*)\s+([a-zA-Z]+)\s+(.+)$/\<close>. The classes of neighbouring
  parts are disjoint up to the last white space, so each part but the last two is the longest
  run of its class; the greedy \<^verbatim>\<open>\s+\<close> before \<^verbatim>\<open>(.+)\<close> takes the whole run of white space,
  or all but its last character when nothing follows the run.
\<close>

definition matchLine :: "string \<Rightarrow> (string \<times> string \<times> string) option" where
  "matchLine left =
     (let s0 = dropWhile isSpace left;
          g1 = takeWhile isNumChar s0; s1 = dropWhile isNumChar s0;
          w1 = takeWhile isSpace s1; s2 = dropWhile isSpace s1;
          g2 = takeWhile isAlpha s2; s3 = dropWhile isAlpha s2;
          w2 = takeWhile isSpace s3; s4 = dropWhile isSpace s3
      in if (case s0 of [] \<Rightarrow> False | c # _ \<Rightarrow> isDigit c) \<and> w1 \<noteq> [] \<and> g2 \<noteq> [] \<and> w2 \<noteq> []
         then (if s4 \<noteq> []
               then (if list_all isDot s4 then Some (g1, g2, s4) else None)
               else (if 2 \<le> length w2 \<and> isDot (last w2) then Some (g1, g2, [last w2])
                     else None))
         else None)"

definition pasteLines :: "string \<Rightarrow> string list" where
  \<comment> \<open>line 259: the trimmed non-empty lines\<close>
  "pasteLines text = filter (\<lambda>l. l \<noteq> []) (map trim (splitLines text))"

definition parseLine :: "(nat \<Rightarrow> string) \<Rightarrow> (nat \<Rightarrow> nat) \<Rightarrow> nat \<Rightarrow> string \<Rightarrow> item" where
  \<comment> \<open>lines 262 to 277: the body of the loop\<close>
  "parseLine ids now k line =
     (let parts = splitOn PIPE line;
          left = (case parts of [] \<Rightarrow> [] | l # _ \<Rightarrow> l);
          right = (case parts of _ # r # _ \<Rightarrow> Some r | _ \<Rightarrow> None);
          category0 = (case right of None \<Rightarrow> ''Other''
                       | Some r \<Rightarrow> if trim r \<noteq> [] then trim r else ''Other'')
      in case matchLine left of
           Some (q, u, n) \<Rightarrow>
             \<lparr>id' = ids k, name = n, quantity = Some q, unit = Some u, category = category0,
              notes = None, have = Some False, checked = Some False, createdAt = Some (now k)\<rparr>
         | None \<Rightarrow>
             \<lparr>id' = ids k, name = trim left, quantity = Some [], unit = Some [],
              category = category0, notes = None, have = Some False, checked = Some False,
              createdAt = Some (now k)\<rparr>)"

definition handlePaste_parsed :: "(nat \<Rightarrow> string) \<Rightarrow> (nat \<Rightarrow> nat) \<Rightarrow> string \<Rightarrow> item list" where
  \<comment> \<open>the array \<^verbatim>\<open>parsed\<close>\<close>
  "handlePaste_parsed ids now text =
     map (\<lambda>(k, line). parseLine ids now k line) (enumerate 0 (pasteLines text))"

definition handlePaste :: "(nat \<Rightarrow> string) \<Rightarrow> (nat \<Rightarrow> nat) \<Rightarrow> string \<Rightarrow> item list \<Rightarrow> item list" where
  \<comment> \<open>the working collection after the paste\<close>
  "handlePaste ids now text prev =
     (let parsed = handlePaste_parsed ids now text
      in if parsed \<noteq> [] then parsed @ prev else prev)"

section \<open>Merging duplicates: \<^verbatim>\<open>consolidateDuplicates\<close>\<close>

text \<open>
  The numbers of the runtime are floating-point values. The model takes the four operations the
  function uses on them as a parameter, so that what is proved holds for every choice of them,
  the runtime's among them.
\<close>

record 'n number_ops =
  parseFloat :: "string \<Rightarrow> 'n"
  isNaN :: "'n \<Rightarrow> bool"
  numAdd :: "'n \<Rightarrow> 'n \<Rightarrow> 'n"
  numToString :: "'n \<Rightarrow> string"

definition key :: "item \<Rightarrow> string" where
  "key it = toLowerCase (name it) @ [PIPE] @ toLowerCase (category it)"

definition filterTruthy :: "string option list \<Rightarrow> string list" where
  \<comment> \<open>\<^verbatim>\<open>.filter(Boolean)\<close> on strings that may be undefined\<close>
  "filterTruthy vs = map orEmpty (filter truthy vs)"

definition andJS :: "bool option \<Rightarrow> bool option \<Rightarrow> bool option" where
  \<comment> \<open>\<^verbatim>\<open>a && b\<close>: the left operand when it is not true, else the right one\<close>
  "andJS a b = (if a = Some True then b else a)"

definition mergeInto :: "'n number_ops \<Rightarrow> item \<Rightarrow> item \<Rightarrow> item" where
  \<comment> \<open>lines 289 to 301: what the loop does to the kept item \<open>cur\<close> when \<open>it\<close> has its key\<close>
  "mergeInto ops cur it =
     (let cur1 =
        (if truthy (quantity cur) \<and> truthy (quantity it) \<and> unit cur = unit it then
           (let a = parseFloat ops (orEmpty (quantity cur));
                b = parseFloat ops (orEmpty (quantity it))
            in if \<not> isNaN ops a \<and> \<not> isNaN ops b
               then cur\<lparr>quantity := Some (numToString ops (numAdd ops a b))\<rparr>
               else cur\<lparr>notes := Some (join ''; '' (filterTruthy [notes cur, quantity it]))\<rparr>)
         else
           cur\<lparr>notes := Some (join ''; '' (filterTruthy
                  [notes cur,
                   Some (if truthy (quantity it) \<and> truthy (unit it)
                         then orEmpty (quantity it) @ '' '' @ orEmpty (unit it)
                         else if truthy (quantity it) then orEmpty (quantity it) else []),
                   notes it]))\<rparr>)
      in cur1\<lparr>have := andJS (have cur1) (have it), checked := andJS (checked cur1) (checked it)\<rparr>)"

text \<open>
  The \<^verbatim>\<open>Map\<close> of the function is a list of keys and items in the order of insertion; an entry
  that is updated keeps its place.
\<close>

fun mapUpdate :: "string \<Rightarrow> (item \<Rightarrow> item) \<Rightarrow> (string \<times> item) list \<Rightarrow> (string \<times> item) list" where
  "mapUpdate k f [] = []"
| "mapUpdate k f ((k', v) # m) = (if k' = k then (k', f v) # m else (k', v) # mapUpdate k f m)"

fun consolidateLoop :: "'n number_ops \<Rightarrow> (string \<times> item) list \<Rightarrow> item list \<Rightarrow> (string \<times> item) list" where
  "consolidateLoop ops m [] = m"
| "consolidateLoop ops m (it # its) =
     (let k = key it
      in if map_of m k = None then consolidateLoop ops (m @ [(k, it)]) its
         else consolidateLoop ops (mapUpdate k (\<lambda>cur. mergeInto ops cur it) m) its)"

definition consolidateDuplicates :: "'n number_ops \<Rightarrow> item list \<Rightarrow> item list" where
  "consolidateDuplicates ops items = map snd (consolidateLoop ops [] items)"

text \<open>
  An instance of the number operations for the quantities that are written as unsigned decimal
  integers: on such strings, up to \<open>2 ^ 53\<close>, parsing, adding and printing are exact in the
  runtime and agree with this instance. Any other string is not a number here.
\<close>

fun digitsToNat :: "nat \<Rightarrow> string \<Rightarrow> nat" where
  "digitsToNat acc [] = acc"
| "digitsToNat acc (c # cs) = digitsToNat (10 * acc + (of_char c - 48)) cs"

function natToDigits :: "nat \<Rightarrow> string" where
  "natToDigits n = (if n < 10 then [char_of (48 + n)] else natToDigits (n div 10) @ [char_of (48 + n mod 10)])"
  by pat_completeness auto
termination
  by (relation "measure (\<lambda>n. n)") auto

definition decimalOps :: "nat option number_ops" where
  "decimalOps =
     \<lparr>parseFloat = (\<lambda>s. if s \<noteq> [] \<and> list_all isDigit s then Some (digitsToNat 0 s) else None),
      isNaN = (\<lambda>v. v = None),
      numAdd = (\<lambda>a b. case (a, b) of (Some x, Some y) \<Rightarrow> Some (x + y) | _ \<Rightarrow> None),
      numToString = (\<lambda>v. case v of Some x \<Rightarrow> natToDigits x | None \<Rightarrow> ''NaN'')\<rparr>"


section \<open>The truthy cells in the words of the specification\<close>

text \<open>
  For the comparison with \<open>truthyTest\<close>: a cell is truthy when it contains one of the four
  words somewhere, the case of letters ignored.
\<close>

definition containsCI :: "string \<Rightarrow> string \<Rightarrow> bool" where
  "containsCI p s = sublist (toLowerCase p) (toLowerCase s)"

definition truthyValue :: "string \<Rightarrow> bool" where
  "truthyValue s =
     (containsCI ''true'' s \<or> containsCI ''yes'' s \<or> containsCI ''y'' s \<or> containsCI ''1'' s)"

section \<open>The merged collection, group by group\<close>

text \<open>
  For the proofs: the first item of the collection with the later items of its key merged
  into it in order, then the same for the items of the other keys.
\<close>


function mergeGroups :: "'n number_ops \<Rightarrow> item list \<Rightarrow> item list" where
  "mergeGroups ops [] = []"
| "mergeGroups ops (x # xs) =
     foldl (mergeInto ops) x (filter (\<lambda>y. key y = key x) xs)
       # mergeGroups ops (filter (\<lambda>y. key y \<noteq> key x) xs)"
  by pat_completeness auto
termination
  by (relation "measure (\<lambda>(ops, xs). length xs)") (auto simp: less_Suc_eq_le)

section \<open>Example items\<close>

definition milk1 :: item where
  "milk1 = \<lparr>id' = ''a1'', name = ''milk'', quantity = Some ''1'', unit = Some ''gal'',
            category = ''Dairy'', notes = Some [], have = Some True, checked = Some True,
            createdAt = Some 1\<rparr>"

definition milk2 :: item where
  "milk2 = \<lparr>id' = ''a2'', name = ''Milk'', quantity = Some ''2'', unit = Some ''gal'',
            category = ''dairy'', notes = Some ''skim'', have = Some False, checked = Some True,
            createdAt = Some 2\<rparr>"

definition milk3 :: item where
  "milk3 = \<lparr>id' = ''a3'', name = ''milk'', quantity = Some ''two'', unit = Some ''gal'',
            category = ''Dairy'', notes = Some [], have = Some True, checked = Some True,
            createdAt = Some 3\<rparr>"

definition pipeA :: item where
  "pipeA = \<lparr>id' = ''b1'', name = ''a|b'', quantity = Some [], unit = Some [],
            category = ''c'', notes = Some [], have = Some False, checked = Some False,
            createdAt = Some 1\<rparr>"

definition pipeB :: item where
  "pipeB = \<lparr>id' = ''b2'', name = ''a'', quantity = Some [], unit = Some [],
            category = ''b|c'', notes = Some [], have = Some False, checked = Some False,
            createdAt = Some 2\<rparr>"

section \<open>The items seen first\<close>

text \<open>
  For the proofs: the items of a collection whose key string no earlier item has, in their
  order, and the fields that a merge leaves alone.
\<close>

function firstSeen :: "item list \<Rightarrow> item list" where
  "firstSeen [] = []"
| "firstSeen (x # xs) = x # firstSeen (filter (\<lambda>y. key y \<noteq> key x) xs)"
  by pat_completeness auto
termination
  by (relation "measure length") (auto simp: less_Suc_eq_le)

definition frame :: "item \<Rightarrow> string \<times> string \<times> string \<times> nat option" where
  "frame v = (id' v, name v, category v, createdAt v)"

section \<open>The rows expected of a round trip\<close>

text \<open>
  The text of one encoded row, and the mapping that decoding is to give back for an item: its
  values under the seven header names, the flags as \<open>TRUE\<close> or \<open>FALSE\<close>.
\<close>

definition rowText :: "item \<Rightarrow> string" where
  "rowText it = join [COMMA] (map quoteField (csvCells it))"

definition csvObject :: "item \<Rightarrow> obj" where
  "csvObject it =
     [(''name'', name it), (''quantity'', orEmpty (quantity it)), (''unit'', orEmpty (unit it)),
      (''category'', category it), (''notes'', orEmpty (notes it)),
      (''have'', if have it = Some True then ''TRUE'' else ''FALSE''),
      (''checked'', if checked it = Some True then ''TRUE'' else ''FALSE'')]"

section \<open>The parts of a pasted line\<close>

text \<open>
  The left part of a line is the text before its first bar, the right part the text between
  the first bar and the second, if there is a first. The pattern of line 269 as a relation:
  the left part is white space, a numeral \<open>q\<close> that starts with a digit and goes on with
  digits, slashes and dots, white space, a run of letters \<open>u\<close>, white space, and a rest \<open>n\<close>
  that is not empty and has no line terminator.
\<close>

definition leftPart :: "string \<Rightarrow> string" where
  "leftPart line = takeWhile (\<lambda>c. c \<noteq> PIPE) line"

definition rightPart :: "string \<Rightarrow> string option" where
  "rightPart line =
     (if PIPE \<in> set line
      then Some (takeWhile (\<lambda>c. c \<noteq> PIPE) (tl (dropWhile (\<lambda>c. c \<noteq> PIPE) line)))
      else None)"

definition linePattern :: "string \<Rightarrow> string \<Rightarrow> string \<Rightarrow> string \<Rightarrow> bool" where
  "linePattern left q u n =
     (\<exists>w0 w1 w2.
        left = w0 @ q @ w1 @ u @ w2 @ n
        \<and> list_all isSpace w0
        \<and> q \<noteq> [] \<and> isDigit (hd q) \<and> list_all isNumChar q
        \<and> w1 \<noteq> [] \<and> list_all isSpace w1
        \<and> u \<noteq> [] \<and> list_all isAlpha u
        \<and> w2 \<noteq> [] \<and> list_all isSpace w2
        \<and> n \<noteq> [] \<and> list_all isDot n)"

text \<open>An environment for the examples.\<close>

definition ids0 :: "nat \<Rightarrow> string" where
  "ids0 k = ''id''"

definition now0 :: "nat \<Rightarrow> nat" where
  "now0 k = 0"

section \<open>Properties of the category normaliser\<close>

lemma normalizeCategory_empty: "normalizeCategory [] categories = ''Other''"
  by (simp add: normalizeCategory_def)

lemma normalizeCategory_found:
  assumes "c \<noteq> []" and "find (\<lambda>cat. toLowerCase cat = toLowerCase (trim c)) categories = Some found"
  shows "normalizeCategory c categories = found"
  using assms by (simp add: normalizeCategory_def)

lemma normalizeCategory_free_text:
  assumes "c \<noteq> []" and "find (\<lambda>cat. toLowerCase cat = toLowerCase (trim c)) categories = None"
  shows "normalizeCategory c categories = trim c"
  using assms by (simp add: normalizeCategory_def)

lemma normalizeCategory_examples:
  "normalizeCategory ''produce'' [''Produce'', ''Dairy''] = ''Produce''"
  "normalizeCategory ''Snacks'' [''Produce''] = ''Snacks''"
  by code_simp+

text \<open>
  C2. The normaliser is to return \<open>''Other''\<close> for a label that is empty or only white space.
  Line 117 tests the label before it is trimmed, so a label of two spaces passes the test; with
  the categories \<open>Produce\<close> and \<open>Dairy\<close> nothing matches and the result is the trimmed label,
  the empty string.
\<close>

theorem normalizeCategory_whitespace_only:
  "normalizeCategory ''  '' [''Produce'', ''Dairy''] = [] \<and> trim ''  '' = []"
  by code_simp

section \<open>Properties of the producers of items\<close>

text \<open>
  The CSV import keeps its half of C3: the name of a record is trimmed, and line 245 drops
  the records whose name is empty.
\<close>

lemma trim_ends:
  assumes "trim s \<noteq> []"
  shows "\<not> isSpace (hd (trim s))" and "\<not> isSpace (last (trim s))"
proof -
  define d where "d = dropWhile isSpace s"
  define e where "e = dropWhile isSpace (rev d)"
  have t: "trim s = rev e"
    by (simp add: trim_def d_def e_def)
  have e: "e \<noteq> []"
    using assms t by simp
  then have he: "\<not> isSpace (hd e)"
    unfolding e_def by (rule hd_dropWhile)
  then show "\<not> isSpace (last (trim s))"
    using e by (simp add: t last_rev)
  have "rev d = takeWhile isSpace (rev d) @ e"
    by (simp add: e_def)
  then have "d = rev e @ rev (takeWhile isSpace (rev d))"
    by (metis rev_append rev_rev_ident)
  then have hd: "hd d = hd (rev e)"
    using e by (metis hd_append2 rev_is_Nil_conv)
  have "d \<noteq> []"
    using e unfolding e_def by auto
  then have "\<not> isSpace (hd d)"
    unfolding d_def by (rule hd_dropWhile)
  then show "\<not> isSpace (hd (trim s))"
    by (simp add: t hd)
qed

lemma trim_idem: "trim (trim s) = trim s"
proof (cases "trim s = []")
  case True
  have "trim [] = []"
    by (simp add: trim_def)
  with True show ?thesis
    by (simp only:)
next
  case False
  from trim_ends [OF False] have h: "\<not> isSpace (hd (trim s))" and l: "\<not> isSpace (last (trim s))" .
  have keep: "\<And>xs. xs \<noteq> [] \<Longrightarrow> \<not> isSpace (hd xs) \<Longrightarrow> dropWhile isSpace xs = xs"
  proof -
    fix xs :: string
    assume "xs \<noteq> []" and "\<not> isSpace (hd xs)"
    then show "dropWhile isSpace xs = xs" by (cases xs) auto
  qed
  have 1: "dropWhile isSpace (trim s) = trim s"
    using False h by (rule keep)
  have "rev (trim s) \<noteq> []" and "\<not> isSpace (hd (rev (trim s)))"
    using False l by (simp_all add: hd_rev)
  then have 2: "dropWhile isSpace (rev (trim s)) = rev (trim s)"
    by (rule keep)
  show ?thesis
    by (subst (1) trim_def) (simp only: 1 2 rev_rev_ident)
qed

lemma importCSV_names:
  assumes "x \<in> set (importCSV_mapped ids now categories text)"
  shows "trim (name x) \<noteq> []"
proof -
  from assms obtain k r where x: "x = rowToItem ids now categories k r" and n: "name x \<noteq> []"
    by (auto simp: importCSV_mapped_def)
  have "trim (name x) = name x"
    unfolding x by (simp add: rowToItem_def Let_def trim_idem)
  with n show ?thesis by simp
qed

text \<open>
  C3. Every record a producer makes is to have a name that is not empty after trimming. The
  paste import has no such test: the line \<open>| Meat\<close> has an empty left part, and the record
  with the empty name enters the working collection.
\<close>

theorem handlePaste_empty_name:
  "handlePaste ids now ''| Meat'' prev =
     \<lparr>id' = ids 0, name = [], quantity = Some [], unit = Some [], category = ''Meat'',
      notes = None, have = Some False, checked = Some False, createdAt = Some (now 0)\<rparr> # prev"
  by code_simp


section \<open>Properties of the CSV decoder\<close>

text \<open>
  C1, as the code has it. Outside quotes a line terminator (LF, CR, or CR LF as one) ends the
  current field, and it finishes the current row only when no row has been finished before
  (it is the first row boundary) or the row, the field just ended included, has more than
  one field. Otherwise the field stays in the current row, which goes on accumulating.
\<close>

theorem parseCSV_row_boundary:
  assumes "\<not> inQuotes s" and "c = LF \<or> c = CR"
  shows "scan s (c # t) =
           scan (if rows s = [] \<or> 1 < length (row s @ [field s])
                 then \<lparr>rows = rows s @ [row s @ [field s]], row = [], field = [], inQuotes = False\<rparr>
                 else \<lparr>rows = rows s, row = row s @ [field s], field = [], inQuotes = False\<rparr>)
                (skipLF c t)"
proof -
  have state: "endOfLine s =
      (if rows s = [] \<or> 1 < length (row s @ [field s])
       then \<lparr>rows = rows s @ [row s @ [field s]], row = [], field = [], inQuotes = False\<rparr>
       else \<lparr>rows = rows s, row = row s @ [field s], field = [], inQuotes = False\<rparr>)"
    using assms(1) by (cases s) (simp add: endOfLine_def pushField_def pushRow_def)
  have "scan s (c # t) = scan (endOfLine s) (skipLF c t)"
    using assms by (auto simp: LF_def CR_def DQ_def COMMA_def)
  then show ?thesis
    by (simp only: state)
qed

text \<open>
  The theorem at the first boundary of \<open>a LF b\<close>, which finishes the row of one field, and at
  a later boundary CR LF after the single field \<open>b\<close>, which does not.
\<close>

theorem parseCSV_row_boundary_witness:
  "\<not> inQuotes (csv_init\<lparr>field := ''a''\<rparr>) \<and> (LF = LF \<or> LF = CR)
   \<and> scan (csv_init\<lparr>field := ''a''\<rparr>) (LF # ''b'')
       = \<lparr>rows = [[''a'']], row = [], field = ''b'', inQuotes = False\<rparr>
   \<and> \<not> inQuotes (csv_init\<lparr>rows := [[''a'']], field := ''b''\<rparr>) \<and> (CR = LF \<or> CR = CR)
   \<and> scan (csv_init\<lparr>rows := [[''a'']], field := ''b''\<rparr>) (CR # LF # ''c'')
       = \<lparr>rows = [[''a'']], row = [''b''], field = ''c'', inQuotes = False\<rparr>"
  using parseCSV_row_boundary [of "csv_init\<lparr>field := ''a''\<rparr>" LF "''b''"]
        parseCSV_row_boundary [of "csv_init\<lparr>rows := [[''a'']], field := ''b''\<rparr>" CR "LF # ''c''"]
  by (simp add: csv_init_def skipLF_def LF_def CR_def DQ_def COMMA_def)

text \<open>
  C1 as it is stated lets a terminator finish the row only when it is not the first row
  boundary or the row has more than one field. In \<open>a LF\<close> the terminator is the first
  boundary and the row has the one field \<open>a\<close>, and the row is finished; in \<open>a LF b LF c\<close> the
  second terminator is not the first boundary, and the row with \<open>b\<close> is not finished.
\<close>

theorem parseCSV_first_boundary_counterexample:
  "rows (scan csv_init (''a'' @ [LF])) = [[''a'']]
   \<and> parseRows (''a'' @ [LF] @ ''b'' @ [LF] @ ''c'') = [[''a''], [''b'', ''c'']]"
  by code_simp

section \<open>Properties of the CSV import\<close>

lemma matchesAt_prefix: "matchesAt p s = prefix p (toLowerCase s)"
  by (induction p s rule: matchesAt.induct) (auto simp: toLowerCase_def)

lemma lower_literals:
  "toLowerCase ''true'' = ''true''" "toLowerCase ''yes'' = ''yes''"
  "toLowerCase ''y'' = ''y''" "toLowerCase ''1'' = ''1''"
  by code_simp+

lemma truthyTest_truthyValue: "truthyTest s = truthyValue s"
proof (induction s)
  case Nil
  show ?case by (simp add: truthyValue_def containsCI_def lower_literals toLowerCase_def)
next
  case (Cons c cs)
  have "toLowerCase (c # cs) = lowerChar c # toLowerCase cs"
    by (simp add: toLowerCase_def)
  then show ?case
    using Cons.IH
    by (auto simp add: truthyValue_def containsCI_def lower_literals matchesAt_prefix sublist_Cons_right)
qed

lemma firstTruthy_single: "firstTruthy [v] = orEmpty v"
  by (cases v) (auto simp: truthy_def orEmpty_def)

text \<open>
  C10. For every decoded row \<open>r\<close> the flags of the record made from it are the unanchored,
  case-insensitive test for \<open>true\<close>, \<open>yes\<close>, \<open>y\<close> or \<open>1\<close> on the cell of the column, the
  empty string standing for an absent column. So \<open>nay\<close> and \<open>2019\<close> give true, and the
  empty string gives false.
\<close>

theorem importCSV_flags:
  "have (rowToItem ids now categories k r) = Some (truthyValue (orEmpty (objGet r ''have'')))
   \<and> checked (rowToItem ids now categories k r) = Some (truthyValue (orEmpty (objGet r ''checked'')))
   \<and> truthyValue ''nay'' \<and> truthyValue ''2019'' \<and> \<not> truthyValue []"
proof -
  have "truthyTest ''nay''" "truthyTest ''2019''" "\<not> truthyTest []"
    by code_simp+
  then show ?thesis
    by (simp add: rowToItem_def Let_def firstTruthy_single truthyTest_truthyValue del: firstTruthy.simps)
qed

section \<open>Properties of the consolidation\<close>

lemma key_mergeInto: "key (mergeInto ops cur it) = key cur"
  by (simp add: mergeInto_def key_def Let_def)

lemma key_foldl_mergeInto: "key (foldl (mergeInto ops) x ys) = key x"
  by (induction ys arbitrary: x) (simp_all add: key_mergeInto)

lemma map_fst_mapUpdate: "map fst (mapUpdate k f m) = map fst m"
  by (induction m) auto

lemma mapUpdate_absent: "k \<notin> fst ` set m \<Longrightarrow> mapUpdate k f m = m"
  by (induction m) auto

lemma map_mapUpdate:
  assumes "distinct (map fst m)"
  shows "map (\<lambda>(k', v). (k', F k' v)) (mapUpdate k f m)
       = map (\<lambda>(k', v). (k', if k' = k then F k' (f v) else F k' v)) m"
  using assms
proof (induction m)
  case Nil
  show ?case by simp
next
  case (Cons e m)
  obtain k' v where e: "e = (k', v)" by (cases e)
  show ?case
  proof (cases "k' = k")
    case True
    with Cons.prems e have "k \<notin> fst ` set m" by auto
    then have "map (\<lambda>(k', v). (k', if k' = k then F k' (f v) else F k' v)) m
             = map (\<lambda>(k', v). (k', F k' v)) m"
      by (intro map_cong) (auto simp: image_iff)
    with True e show ?thesis by simp
  next
    case False
    with Cons e show ?thesis by simp
  qed
qed

lemma consolidateLoop_groups:
  assumes "distinct (map fst m)"
  shows "consolidateLoop ops m xs =
           map (\<lambda>(k, v). (k, foldl (mergeInto ops) v (filter (\<lambda>y. key y = k) xs))) m
           @ map (\<lambda>v. (key v, v)) (mergeGroups ops (filter (\<lambda>y. key y \<notin> fst ` set m) xs))"
  using assms
proof (induction xs arbitrary: m)
  case Nil
  show ?case by (simp add: case_prod_unfold)
next
  case (Cons x xs)
  let ?k = "key x"
  show ?case
  proof (cases "map_of m ?k = None")
    case True
    then have notin: "?k \<notin> fst ` set m"
      by (simp add: map_of_eq_None_iff)
    have d: "distinct (map fst (m @ [(?k, x)]))"
      using Cons.prems notin by simp
    have old: "map (\<lambda>(k, v). (k, foldl (mergeInto ops) v (filter (\<lambda>y. key y = k) (x # xs)))) m
             = map (\<lambda>(k, v). (k, foldl (mergeInto ops) v (filter (\<lambda>y. key y = k) xs))) m"
      using notin by (intro map_cong) (auto simp: image_iff)
    have f1: "filter (\<lambda>y. key y = ?k) (filter (\<lambda>y. key y \<notin> fst ` set m) xs)
            = filter (\<lambda>y. key y = ?k) xs"
      unfolding filter_filter using notin by (intro filter_cong) (auto simp: image_iff)
    have f2: "filter (\<lambda>y. key y \<noteq> ?k) (filter (\<lambda>y. key y \<notin> fst ` set m) xs)
            = filter (\<lambda>y. key y \<notin> fst ` set (m @ [(?k, x)])) xs"
      unfolding filter_filter by (intro filter_cong) (auto simp: image_iff)
    have "consolidateLoop ops m (x # xs) = consolidateLoop ops (m @ [(?k, x)]) xs"
      using True by (simp add: Let_def)
    also have "\<dots> = map (\<lambda>(k, v). (k, foldl (mergeInto ops) v (filter (\<lambda>y. key y = k) xs))) (m @ [(?k, x)])
           @ map (\<lambda>v. (key v, v)) (mergeGroups ops (filter (\<lambda>y. key y \<notin> fst ` set (m @ [(?k, x)])) xs))"
      by (rule Cons.IH [OF d])
    also have "\<dots> = map (\<lambda>(k, v). (k, foldl (mergeInto ops) v (filter (\<lambda>y. key y = k) (x # xs)))) m
           @ map (\<lambda>v. (key v, v)) (mergeGroups ops (filter (\<lambda>y. key y \<notin> fst ` set m) (x # xs)))"
    proof -
      have "filter (\<lambda>y. key y \<notin> fst ` set m) (x # xs) = x # filter (\<lambda>y. key y \<notin> fst ` set m) xs"
        using notin by simp
      then have "mergeGroups ops (filter (\<lambda>y. key y \<notin> fst ` set m) (x # xs))
          = foldl (mergeInto ops) x (filter (\<lambda>y. key y = ?k) xs)
              # mergeGroups ops (filter (\<lambda>y. key y \<notin> fst ` set (m @ [(?k, x)])) xs)"
        by (simp only: mergeGroups.simps f1 f2)
      then show ?thesis
        by (simp only: old) (simp add: key_foldl_mergeInto)
    qed
    finally show ?thesis .
  next
    case False
    then have isin: "?k \<in> fst ` set m"
      by (simp add: map_of_eq_None_iff)
    let ?m' = "mapUpdate ?k (\<lambda>cur. mergeInto ops cur x) m"
    have d: "distinct (map fst ?m')"
      using Cons.prems by (simp add: map_fst_mapUpdate)
    have keys: "fst ` set ?m' = fst ` set m"
      using map_fst_mapUpdate [of ?k "\<lambda>cur. mergeInto ops cur x" m]
      by (metis list.set_map)
    have upd: "map (\<lambda>(k, v). (k, foldl (mergeInto ops) v (filter (\<lambda>y. key y = k) xs))) ?m'
             = map (\<lambda>(k, v). (k, foldl (mergeInto ops) v (filter (\<lambda>y. key y = k) (x # xs)))) m"
      unfolding map_mapUpdate [OF Cons.prems]
      by (intro map_cong) auto
    have "consolidateLoop ops m (x # xs) = consolidateLoop ops ?m' xs"
      using False by (auto simp add: Let_def)
    also have "\<dots> = map (\<lambda>(k, v). (k, foldl (mergeInto ops) v (filter (\<lambda>y. key y = k) xs))) ?m'
           @ map (\<lambda>v. (key v, v)) (mergeGroups ops (filter (\<lambda>y. key y \<notin> fst ` set ?m') xs))"
      by (rule Cons.IH [OF d])
    also have "\<dots> = map (\<lambda>(k, v). (k, foldl (mergeInto ops) v (filter (\<lambda>y. key y = k) (x # xs)))) m
           @ map (\<lambda>v. (key v, v)) (mergeGroups ops (filter (\<lambda>y. key y \<notin> fst ` set m) (x # xs)))"
    proof -
      have "filter (\<lambda>y. key y \<notin> fst ` set m) (x # xs) = filter (\<lambda>y. key y \<notin> fst ` set m) xs"
        using isin by simp
      then show ?thesis
        by (simp only: upd keys)
    qed
    finally show ?thesis .
  qed
qed

lemma consolidateDuplicates_groups: "consolidateDuplicates ops xs = mergeGroups ops xs"
  by (simp add: consolidateDuplicates_def consolidateLoop_groups comp_def)

lemma keys_mergeGroups: "set (map key (mergeGroups ops xs)) = set (map key xs)"
proof (induction ops xs rule: mergeGroups.induct)
  case (1 ops)
  show ?case by simp
next
  case (2 ops x xs)
  then show ?case
    by (auto simp: key_foldl_mergeInto)
qed

lemma distinct_keys_mergeGroups: "distinct (map key (mergeGroups ops xs))"
proof (induction ops xs rule: mergeGroups.induct)
  case (1 ops)
  show ?case by simp
next
  case (2 ops x xs)
  have "key x \<notin> set (map key (mergeGroups ops (filter (\<lambda>y. key y \<noteq> key x) xs)))"
    unfolding keys_mergeGroups by auto
  with 2 show ?case
    by (simp add: key_foldl_mergeInto)
qed

lemma mergeGroups_distinct: "distinct (map key xs) \<Longrightarrow> mergeGroups ops xs = xs"
proof (induction xs)
  case Nil
  show ?case by simp
next
  case (Cons x xs)
  then have "\<forall>y \<in> set xs. key y \<noteq> key x" by (auto simp: image_iff)
  then have "filter (\<lambda>y. key y = key x) xs = []" "filter (\<lambda>y. key y \<noteq> key x) xs = xs"
    by (auto simp: filter_empty_conv filter_id_conv)
  with Cons show ?case by simp
qed

text \<open>
  C8. Consolidating the consolidated collection changes nothing: its keys are distinct, so
  every item is entered into the map and none is merged.
\<close>

theorem consolidate_idempotent:
  "consolidateDuplicates ops (consolidateDuplicates ops xs) = consolidateDuplicates ops xs"
  by (simp add: consolidateDuplicates_groups mergeGroups_distinct distinct_keys_mergeGroups)

lemma consolidateLoop_append:
  "consolidateLoop ops m (xs @ ys) = consolidateLoop ops (consolidateLoop ops m xs) ys"
  by (induction xs arbitrary: m) (simp_all add: Let_def)

lemma mapUpdate_const:
  "map_of m k = Some cur \<Longrightarrow> mapUpdate k f m = mapUpdate k (\<lambda>_. f cur) m"
  by (induction m) (auto split: if_splits)

lemma consolidate_step:
  assumes "map_of (consolidateLoop ops [] xs) (key it) = Some cur"
  shows "consolidateDuplicates ops (xs @ it # ys) =
           map snd (consolidateLoop ops
             (mapUpdate (key it) (\<lambda>_. mergeInto ops cur it) (consolidateLoop ops [] xs)) ys)"
proof -
  let ?m = "consolidateLoop ops [] xs"
  have "consolidateLoop ops ?m (it # ys)
      = consolidateLoop ops (mapUpdate (key it) (\<lambda>c. mergeInto ops c it) ?m) ys"
    using assms by (simp add: Let_def)
  also have "mapUpdate (key it) (\<lambda>c. mergeInto ops c it) ?m
      = mapUpdate (key it) (\<lambda>_. mergeInto ops cur it) ?m"
    using assms by (rule mapUpdate_const)
  finally show ?thesis
    by (simp add: consolidateDuplicates_def consolidateLoop_append)
qed

lemma join_notes:
  "truthy q \<Longrightarrow> join ''; '' (filterTruthy [n, q])
     = (if truthy n then orEmpty n @ ''; '' else []) @ orEmpty q"
  by (simp add: filterTruthy_def)

text \<open>
  C5. Let \<open>it\<close> arrive when \<open>cur\<close> is the item kept for its key, both with a non-empty quantity
  and with the same unit. Then the loop goes on with the kept item replaced as follows: when
  both quantities parse to a number, its quantity is the sum as a string, its unit and notes
  as they were; otherwise its notes are the old notes and the raw quantity of \<open>it\<close>, joined by
  a semicolon and a space, the old notes left out when empty.
\<close>

theorem consolidate_numeric_merge:
  assumes "map_of (consolidateLoop ops [] xs) (key it) = Some cur"
    and "truthy (quantity cur)" and "truthy (quantity it)" and "unit cur = unit it"
  shows "consolidateDuplicates ops (xs @ it # ys) =
           map snd (consolidateLoop ops
             (mapUpdate (key it)
                (\<lambda>_. let a = parseFloat ops (orEmpty (quantity cur));
                          b = parseFloat ops (orEmpty (quantity it))
                      in if \<not> isNaN ops a \<and> \<not> isNaN ops b
                         then cur\<lparr>quantity := Some (numToString ops (numAdd ops a b)),
                                  have := andJS (have cur) (have it),
                                  checked := andJS (checked cur) (checked it)\<rparr>
                         else cur\<lparr>notes := Some ((if truthy (notes cur) then orEmpty (notes cur) @ ''; ''
                                                   else []) @ orEmpty (quantity it)),
                                  have := andJS (have cur) (have it),
                                  checked := andJS (checked cur) (checked it)\<rparr>)
                (consolidateLoop ops [] xs)) ys)"
proof -
  have "mergeInto ops cur it =
      (let a = parseFloat ops (orEmpty (quantity cur));
           b = parseFloat ops (orEmpty (quantity it))
       in if \<not> isNaN ops a \<and> \<not> isNaN ops b
          then cur\<lparr>quantity := Some (numToString ops (numAdd ops a b)),
                   have := andJS (have cur) (have it),
                   checked := andJS (checked cur) (checked it)\<rparr>
          else cur\<lparr>notes := Some ((if truthy (notes cur) then orEmpty (notes cur) @ ''; ''
                                    else []) @ orEmpty (quantity it)),
                   have := andJS (have cur) (have it),
                   checked := andJS (checked cur) (checked it)\<rparr>)"
    using assms(2-4) by (simp add: mergeInto_def Let_def join_notes)
  then show ?thesis
    using consolidate_step [OF assms(1), of ys] by simp
qed

text \<open>
  The theorem on the decimal instance: quantities \<open>1\<close> and \<open>2\<close> of unit \<open>gal\<close> give \<open>3\<close>,
  and the quantity \<open>two\<close> goes to the notes.
\<close>

theorem consolidate_numeric_merge_witness:
  "map_of (consolidateLoop decimalOps [] [milk1]) (key milk2) = Some milk1
   \<and> truthy (quantity milk1) \<and> truthy (quantity milk2) \<and> unit milk1 = unit milk2
   \<and> consolidateDuplicates decimalOps [milk1, milk2]
       = [milk1\<lparr>quantity := Some ''3'', have := Some False\<rparr>]
   \<and> map_of (consolidateLoop decimalOps [] [milk1]) (key milk3) = Some milk1
   \<and> truthy (quantity milk3) \<and> unit milk1 = unit milk3
   \<and> consolidateDuplicates decimalOps [milk1, milk3] = [milk1\<lparr>notes := Some ''two''\<rparr>]"
proof -
  have h1: "map_of (consolidateLoop decimalOps [] [milk1]) (key milk2) = Some milk1"
    by code_simp
  have h2: "truthy (quantity milk1)" and h3: "truthy (quantity milk2)"
    and h4: "unit milk1 = unit milk2"
    by code_simp+
  have g1: "map_of (consolidateLoop decimalOps [] [milk1]) (key milk3) = Some milk1"
    by code_simp
  have g3: "truthy (quantity milk3)" and g4: "unit milk1 = unit milk3"
    by code_simp+
  have "consolidateDuplicates decimalOps ([milk1] @ milk2 # []) = [milk1\<lparr>quantity := Some ''3'', have := Some False\<rparr>]"
    unfolding consolidate_numeric_merge [OF h1 h2 h3 h4] by code_simp
  moreover have "consolidateDuplicates decimalOps ([milk1] @ milk3 # []) = [milk1\<lparr>notes := Some ''two''\<rparr>]"
    unfolding consolidate_numeric_merge [OF g1 h2 g3 g4] by code_simp
  ultimately show ?thesis
    using h1 h2 h3 h4 g1 g3 g4 by simp
qed

lemma andJS_true: "(andJS a b = Some True) = (a = Some True \<and> b = Some True)"
  by (auto simp: andJS_def)

text \<open>
  C6. When \<open>it\<close> is merged into the kept item \<open>cur\<close> of its key, the flag \<open>have\<close> of the merged
  record is true exactly when it is true in both, and so is \<open>checked\<close>: the merged flag is
  that of \<open>it\<close> when the kept one is true, and the kept one otherwise.
\<close>

theorem consolidate_flags_and:
  assumes "map_of (consolidateLoop ops [] xs) (key it) = Some cur"
  shows "consolidateDuplicates ops (xs @ it # ys) =
           map snd (consolidateLoop ops
             (mapUpdate (key it) (\<lambda>_. mergeInto ops cur it) (consolidateLoop ops [] xs)) ys)
         \<and> (have (mergeInto ops cur it) = Some True) = (have cur = Some True \<and> have it = Some True)
         \<and> (checked (mergeInto ops cur it) = Some True)
             = (checked cur = Some True \<and> checked it = Some True)
         \<and> have (mergeInto ops cur it) = (if have cur = Some True then have it else have cur)
         \<and> checked (mergeInto ops cur it)
             = (if checked cur = Some True then checked it else checked cur)"
  using consolidate_step [OF assms, of ys]
  by (simp add: mergeInto_def Let_def andJS_true) (simp add: andJS_def)

text \<open>
  The theorem on an item that is had merged with one that is not: the merged one is not.
\<close>

theorem consolidate_flags_and_witness:
  "map_of (consolidateLoop decimalOps [] [milk1]) (key milk2) = Some milk1
   \<and> have milk1 = Some True \<and> have milk2 = Some False
   \<and> map have (consolidateDuplicates decimalOps [milk1, milk2]) = [Some False]
   \<and> map checked (consolidateDuplicates decimalOps [milk1, milk2]) = [Some True]"
proof -
  have h1: "map_of (consolidateLoop decimalOps [] [milk1]) (key milk2) = Some milk1"
    by code_simp
  have e: "have milk1 = Some True" "have milk2 = Some False"
      "checked milk1 = Some True" "checked milk2 = Some True"
    by code_simp+
  have m: "map snd (consolidateLoop decimalOps
             (mapUpdate (key milk2) (\<lambda>_. mergeInto decimalOps milk1 milk2)
                (consolidateLoop decimalOps [] [milk1])) []) = [mergeInto decimalOps milk1 milk2]"
    by code_simp
  from consolidate_flags_and [OF h1, of "[]"] e m
  have "consolidateDuplicates decimalOps [milk1, milk2] = [mergeInto decimalOps milk1 milk2]"
    and "have (mergeInto decimalOps milk1 milk2) \<noteq> Some True"
    and "checked (mergeInto decimalOps milk1 milk2) = Some True"
    by simp_all
  moreover have "have (mergeInto decimalOps milk1 milk2) = Some False"
    by code_simp
  ultimately show ?thesis
    using h1 e by simp
qed

text \<open>
  C7. The output is to hold one record for each distinct pair of lower-cased name and
  lower-cased category. Line 283 makes the key one string, the two parts joined by a bar, so
  the pairs \<open>(a|b, c)\<close> and \<open>(a, b|c)\<close> have the same key: the second item is merged into the
  first and the output has one record for the two pairs.
\<close>

theorem consolidate_key_collision:
  "(toLowerCase (name pipeA), toLowerCase (category pipeA))
     \<noteq> (toLowerCase (name pipeB), toLowerCase (category pipeB))
   \<and> key pipeA = key pipeB
   \<and> consolidateDuplicates ops [pipeA, pipeB] = [pipeA]"
  by code_simp

text \<open>
  What holds of the output with the key string of line 283 in the place of the pair: its key
  strings are distinct and are those of the input, and its records have, in order, the
  \<open>id\<close>, \<open>name\<close>, \<open>category\<close> and \<open>createdAt\<close> of the items that were first to have their key
  string.
\<close>

lemma frame_mergeInto: "frame (mergeInto ops cur it) = frame cur"
  by (simp add: mergeInto_def frame_def Let_def)

lemma frame_foldl_mergeInto: "frame (foldl (mergeInto ops) x ys) = frame x"
  by (induction ys arbitrary: x) (simp_all add: frame_mergeInto)

lemma consolidate_first_seen:
  "map frame (consolidateDuplicates ops xs) = map frame (firstSeen xs)"
  unfolding consolidateDuplicates_groups
  by (induction ops xs rule: mergeGroups.induct) (simp_all add: frame_foldl_mergeInto)

lemma consolidate_keys:
  "distinct (map key (consolidateDuplicates ops xs))"
  "set (map key (consolidateDuplicates ops xs)) = set (map key xs)"
  unfolding consolidateDuplicates_groups
  by (rule distinct_keys_mergeGroups, rule keys_mergeGroups)

section \<open>The round trip through CSV\<close>

lemma join_Cons: "join sep (x # xs) = x @ concat (map (\<lambda>y. sep @ y) xs)"
  by (induction xs arbitrary: x) simp_all

lemma toCSV_lines:
  "toCSV items = join [COMMA] csvHeader @ concat (map (\<lambda>it. LF # rowText it) items)"
  by (simp add: toCSV_def join_Cons rowText_def comp_def)

lemma scan_escaped:
  "scan \<lparr>rows = rs, row = r, field = f, inQuotes = True\<rparr> (escapeQuotes v @ t)
     = scan \<lparr>rows = rs, row = r, field = f @ v, inQuotes = True\<rparr> t"
proof (induction v arbitrary: f)
  case Nil
  show ?case by (simp add: escapeQuotes_def)
next
  case (Cons c v)
  have e1: "escapeQuotes (DQ # v) = DQ # DQ # escapeQuotes v"
    and e2: "c \<noteq> DQ \<Longrightarrow> escapeQuotes (c # v) = c # escapeQuotes v"
    by (simp_all add: escapeQuotes_def)
  show ?case
    using Cons.IH [of "f @ [c]"] by (cases "c = DQ") (simp_all add: e1 e2)
qed

lemma scan_quoted_field:
  assumes "t = [] \<or> hd t \<noteq> DQ"
  shows "scan \<lparr>rows = rs, row = r, field = f, inQuotes = False\<rparr> (quoteField v @ t)
       = scan \<lparr>rows = rs, row = r, field = f @ v, inQuotes = False\<rparr> t"
proof -
  have "scan \<lparr>rows = rs, row = r, field = f, inQuotes = False\<rparr> (quoteField v @ t)
      = scan \<lparr>rows = rs, row = r, field = f, inQuotes = True\<rparr> (escapeQuotes v @ DQ # t)"
    by (simp add: quoteField_def)
  also have "\<dots> = scan \<lparr>rows = rs, row = r, field = f @ v, inQuotes = True\<rparr> (DQ # t)"
    by (rule scan_escaped)
  also have "\<dots> = scan \<lparr>rows = rs, row = r, field = f @ v, inQuotes = False\<rparr> t"
    using assms by auto
  finally show ?thesis .
qed

lemma scan_cells:
  assumes "t = [] \<or> hd t = LF"
  shows "scan \<lparr>rows = rs, row = r, field = [], inQuotes = False\<rparr>
           (join [COMMA] (map quoteField (cells @ [l])) @ t)
       = scan \<lparr>rows = rs, row = r @ cells, field = l, inQuotes = False\<rparr> t"
proof (induction cells arbitrary: r)
  case Nil
  have "t = [] \<or> hd t \<noteq> DQ"
    using assms by (auto simp: LF_def DQ_def)
  then show ?case
    using scan_quoted_field [of t rs r "[]" l] by simp
next
  case (Cons c cells)
  have "join [COMMA] (map quoteField ((c # cells) @ [l]))
      = quoteField c @ COMMA # join [COMMA] (map quoteField (cells @ [l]))"
    by (cases cells) simp_all
  then have "scan \<lparr>rows = rs, row = r, field = [], inQuotes = False\<rparr>
           (join [COMMA] (map quoteField ((c # cells) @ [l])) @ t)
      = scan \<lparr>rows = rs, row = r, field = [], inQuotes = False\<rparr>
           (quoteField c @ (COMMA # join [COMMA] (map quoteField (cells @ [l])) @ t))"
    by simp
  also have "\<dots> = scan \<lparr>rows = rs, row = r, field = c, inQuotes = False\<rparr>
           (COMMA # join [COMMA] (map quoteField (cells @ [l])) @ t)"
    using scan_quoted_field [of "COMMA # join [COMMA] (map quoteField (cells @ [l])) @ t" rs r "[]" c]
    by (simp add: COMMA_def DQ_def)
  also have "\<dots> = scan \<lparr>rows = rs, row = r @ [c], field = [], inQuotes = False\<rparr>
           (join [COMMA] (map quoteField (cells @ [l])) @ t)"
    by (simp add: pushField_def COMMA_def DQ_def)
  also have "\<dots> = scan \<lparr>rows = rs, row = (r @ [c]) @ cells, field = l, inQuotes = False\<rparr> t"
    by (rule Cons.IH)
  finally show ?case by simp
qed

lemma scan_rowText:
  assumes "t = [] \<or> hd t = LF"
  shows "scan \<lparr>rows = rs, row = [], field = [], inQuotes = False\<rparr> (rowText it @ t)
       = scan \<lparr>rows = rs, row = butlast (csvCells it), field = last (csvCells it), inQuotes = False\<rparr> t"
proof -
  have "csvCells it = butlast (csvCells it) @ [last (csvCells it)]"
    by (simp add: csvCells_def)
  then have "rowText it = join [COMMA] (map quoteField (butlast (csvCells it) @ [last (csvCells it)]))"
    by (simp add: rowText_def)
  then show ?thesis
    using scan_cells [OF assms, of rs "[]" "butlast (csvCells it)" "last (csvCells it)"] by simp
qed

lemma scan_item_lines:
  assumes "r \<noteq> []"
  shows "row (scan \<lparr>rows = rs, row = r, field = f, inQuotes = False\<rparr>
                (concat (map (\<lambda>it. LF # rowText it) items))) \<noteq> []
       \<and> rows (pushRow (pushField (scan \<lparr>rows = rs, row = r, field = f, inQuotes = False\<rparr>
                (concat (map (\<lambda>it. LF # rowText it) items)))))
           = rs @ [r @ [f]] @ map csvCells items"
  using assms
proof (induction items arbitrary: rs r f)
  case Nil
  then show ?case by (simp add: pushRow_def pushField_def)
next
  case (Cons it items)
  let ?rest = "concat (map (\<lambda>it. LF # rowText it) items)"
  have t: "?rest = [] \<or> hd ?rest = LF"
    by (cases items) simp_all
  have six: "butlast (csvCells it) \<noteq> []"
    by (simp add: csvCells_def)
  have full: "butlast (csvCells it) @ [last (csvCells it)] = csvCells it"
    by (simp add: csvCells_def)
  have "scan \<lparr>rows = rs, row = r, field = f, inQuotes = False\<rparr>
          (concat (map (\<lambda>it. LF # rowText it) (it # items)))
      = scan \<lparr>rows = rs @ [r @ [f]], row = [], field = [], inQuotes = False\<rparr> (rowText it @ ?rest)"
    using Cons.prems
    by (simp add: endOfLine_def pushField_def pushRow_def skipLF_def LF_def CR_def DQ_def COMMA_def)
  also have "\<dots> = scan \<lparr>rows = rs @ [r @ [f]], row = butlast (csvCells it),
                          field = last (csvCells it), inQuotes = False\<rparr> ?rest"
    by (rule scan_rowText [OF t])
  finally show ?case
    using Cons.IH [OF six, of "rs @ [r @ [f]]" "last (csvCells it)"] by (simp add: full)
qed

lemma scan_header:
  "scan csv_init (join [COMMA] csvHeader @ t)
     = scan \<lparr>rows = [], row = [''name'', ''quantity'', ''unit'', ''category'', ''notes'', ''have''],
             field = ''checked'', inQuotes = False\<rparr> t"
  by (simp add: csv_init_def csvHeader_def pushField_def COMMA_def DQ_def LF_def CR_def)

lemma parseRows_toCSV: "parseRows (toCSV items) = csvHeader # map csvCells items"
proof -
  let ?s = "scan csv_init (toCSV items)"
  have s: "?s = scan \<lparr>rows = [], row = [''name'', ''quantity'', ''unit'', ''category'', ''notes'', ''have''],
             field = ''checked'', inQuotes = False\<rparr> (concat (map (\<lambda>it. LF # rowText it) items))"
    by (simp only: toCSV_lines scan_header)
  have "row ?s \<noteq> [] \<and> rows (pushRow (pushField ?s)) = [] @ [[''name'', ''quantity'', ''unit'', ''category'', ''notes'', ''have''] @ [''checked'']] @ map csvCells items"
    unfolding s by (rule scan_item_lines) simp
  then show ?thesis
    by (simp add: parseRows_def Let_def csvHeader_def)
qed


lemma header_normal: "map (\<lambda>h. toLowerCase (trim h)) csvHeader = csvHeader"
  by code_simp

lemma fillObj_cells: "fillObj csvHeader (csvCells it) 0 [] = csvObject it"
  by (simp add: csvHeader_def csvCells_def csvObject_def boolCell_def)

lemma trim_empty_iff: "trim s = [] \<longleftrightarrow> (\<forall>c \<in> set s. isSpace c)"
proof
  assume "trim s = []"
  then have all: "\<forall>c \<in> set (dropWhile isSpace s). isSpace c"
    by (simp add: trim_def dropWhile_eq_Nil_conv)
  have "dropWhile isSpace s = []"
  proof (rule ccontr)
    assume ne: "dropWhile isSpace s \<noteq> []"
    then have "\<not> isSpace (hd (dropWhile isSpace s))"
      by (rule hd_dropWhile)
    moreover have "hd (dropWhile isSpace s) \<in> set (dropWhile isSpace s)"
      using ne by simp
    ultimately show False using all by blast
  qed
  then show "\<forall>c \<in> set s. isSpace c"
    by (simp add: dropWhile_eq_Nil_conv)
next
  assume "\<forall>c \<in> set s. isSpace c"
  then have "dropWhile isSpace s = []"
    by (simp add: dropWhile_eq_Nil_conv)
  then show "trim s = []"
    by (simp only: trim_def rev.simps dropWhile.simps)
qed

lemma csvObject_not_blank: "trim (concat (objValues (csvObject it))) \<noteq> []"
proof -
  have "CHR ''E'' \<in> set (concat (objValues (csvObject it)))"
    by (simp add: csvObject_def objValues_def)
  moreover have "\<not> isSpace (CHR ''E'')"
    by (simp add: isSpace_def)
  ultimately show ?thesis
    unfolding trim_empty_iff by blast
qed

text \<open>
  C9. Decoding the encoding of a sequence of items gives one mapping for each item, in order,
  with the item's name, quantity, unit, category and notes under their header names (the
  empty string for a field that is not set) and the two flags as \<open>TRUE\<close> or \<open>FALSE\<close>. It holds
  for every sequence of items, those of the working collection among them.
\<close>

theorem csv_roundtrip: "parseCSV (toCSV items) = map csvObject items"
proof -
  have "parseCSV (toCSV items)
      = filter (\<lambda>ob. length (trim (concat (objValues ob))) \<noteq> 0)
          (map (\<lambda>r. fillObj csvHeader r 0 []) (map csvCells items))"
    by (simp add: parseCSV_def parseRows_toCSV header_normal)
  also have "\<dots> = filter (\<lambda>ob. length (trim (concat (objValues ob))) \<noteq> 0) (map csvObject items)"
    by (simp add: fillObj_cells comp_def)
  also have "\<dots> = map csvObject items"
    by (simp add: filter_id_conv csvObject_not_blank)
  finally show ?thesis .
qed

section \<open>Properties of the paste import\<close>

lemma consHead_splitOn: "splitOn sep s \<noteq> []"
  by (induction s) (auto split: list.splits elim: consHead.elims)

lemma splitOn_parts:
  "splitOn sep s =
     takeWhile (\<lambda>c. c \<noteq> sep) s
       # (if sep \<in> set s then splitOn sep (tl (dropWhile (\<lambda>c. c \<noteq> sep) s)) else [])"
proof (induction s)
  case Nil
  show ?case by simp
next
  case (Cons c s)
  show ?case
  proof (cases "c = sep")
    case True
    then show ?thesis by simp
  next
    case False
    then show ?thesis
      using Cons.IH by auto
  qed
qed

lemma parseLine_left: "(case splitOn PIPE line of [] \<Rightarrow> [] | l # _ \<Rightarrow> l) = leftPart line"
  by (subst splitOn_parts) (simp add: leftPart_def)

lemma parseLine_right:
  "(case splitOn PIPE line of _ # r # _ \<Rightarrow> Some r | _ \<Rightarrow> None) = rightPart line"
proof (cases "PIPE \<in> set line")
  case True
  have "splitOn PIPE line = leftPart line # splitOn PIPE (tl (dropWhile (\<lambda>c. c \<noteq> PIPE) line))"
    using True by (subst splitOn_parts) (simp add: leftPart_def)
  also have "splitOn PIPE (tl (dropWhile (\<lambda>c. c \<noteq> PIPE) line))
      = takeWhile (\<lambda>c. c \<noteq> PIPE) (tl (dropWhile (\<lambda>c. c \<noteq> PIPE) line))
         # (if PIPE \<in> set (tl (dropWhile (\<lambda>c. c \<noteq> PIPE) line))
            then splitOn PIPE (tl (dropWhile (\<lambda>c. c \<noteq> PIPE) (tl (dropWhile (\<lambda>c. c \<noteq> PIPE) line)))) else [])"
    by (rule splitOn_parts)
  finally show ?thesis
    using True by (simp add: rightPart_def)
next
  case False
  then have "splitOn PIPE line = [leftPart line]"
    by (subst splitOn_parts) (simp add: leftPart_def)
  then show ?thesis
    using False by (simp add: rightPart_def)
qed

lemma parseLine_category:
  "category (parseLine ids now k line) =
     (case rightPart line of
        None \<Rightarrow> ''Other''
      | Some r \<Rightarrow> if trim r \<noteq> [] then trim r else ''Other'')"
  unfolding parseLine_def Let_def parseLine_left parseLine_right
  by (simp split: option.splits prod.splits)

lemma parseLine_matched:
  assumes "matchLine (leftPart line) = Some (q, u, n)"
  shows "quantity (parseLine ids now k line) = Some q" "unit (parseLine ids now k line) = Some u"
    "name (parseLine ids now k line) = n"
  using assms unfolding parseLine_def Let_def parseLine_left parseLine_right
  by simp_all

lemma parseLine_unmatched:
  assumes "matchLine (leftPart line) = None"
  shows "quantity (parseLine ids now k line) = Some []" "unit (parseLine ids now k line) = Some []"
    "name (parseLine ids now k line) = trim (leftPart line)"
  using assms unfolding parseLine_def Let_def parseLine_left parseLine_right
  by simp_all


text \<open>
  The function \<open>matchLine\<close> and the pattern: what it returns is a match of the pattern, and
  when the pattern has a match it returns one with the same numeral and unit, and the same
  rest up to white space at the ends.
\<close>

lemma run_then_rest:
  assumes "list_all P w" and "rest = [] \<or> \<not> P (hd rest)"
  shows "takeWhile P (w @ rest) = w" and "dropWhile P (w @ rest) = rest"
proof -
  have "takeWhile P rest = [] \<and> dropWhile P rest = rest"
    using assms(2) by (cases rest) auto
  then show "takeWhile P (w @ rest) = w" and "dropWhile P (w @ rest) = rest"
    using assms(1) by (induction w) auto
qed

lemma class_facts:
  "isDigit c \<Longrightarrow> \<not> isSpace c" "isDigit c \<Longrightarrow> isNumChar c" "isSpace c \<Longrightarrow> \<not> isNumChar c"
  "isAlpha c \<Longrightarrow> \<not> isSpace c" "isSpace c \<Longrightarrow> \<not> isAlpha c"
  by (auto simp: isDigit_def isSpace_def isNumChar_def isAlpha_def)

lemma trim_dropWhile: "trim (dropWhile isSpace s) = trim s"
  by (simp add: trim_def)

lemma matchLine_complete:
  assumes "linePattern left q u n"
  shows "\<exists>n'. matchLine left = Some (q, u, n') \<and> trim n' = trim n"
proof -
  from assms obtain w0 w1 w2 where
    left: "left = w0 @ q @ w1 @ u @ w2 @ n"
    and w0: "list_all isSpace w0"
    and q: "q \<noteq> []" "isDigit (hd q)" "list_all isNumChar q"
    and w1: "w1 \<noteq> []" "list_all isSpace w1"
    and u: "u \<noteq> []" "list_all isAlpha u"
    and w2: "w2 \<noteq> []" "list_all isSpace w2"
    and n: "n \<noteq> []" "list_all isDot n"
    unfolding linePattern_def by blast
  have hd_w1: "isSpace (hd w1)" using w1 by (cases w1) auto
  have hd_u: "isAlpha (hd u)" using u by (cases u) auto
  have hd_w2: "isSpace (hd w2)" using w2 by (cases w2) auto
  have s0: "dropWhile isSpace left = q @ w1 @ u @ w2 @ n"
    unfolding left using w0 q class_facts(1) by (intro run_then_rest(2)) auto
  have g1: "takeWhile isNumChar (q @ w1 @ u @ w2 @ n) = q"
    and s1: "dropWhile isNumChar (q @ w1 @ u @ w2 @ n) = w1 @ u @ w2 @ n"
    using q w1 hd_w1 class_facts(3) by (auto intro!: run_then_rest)
  have t1: "takeWhile isSpace (w1 @ u @ w2 @ n) = w1"
    and s2: "dropWhile isSpace (w1 @ u @ w2 @ n) = u @ w2 @ n"
    using w1 u hd_u class_facts(4) by (auto intro!: run_then_rest)
  have g2: "takeWhile isAlpha (u @ w2 @ n) = u"
    and s3: "dropWhile isAlpha (u @ w2 @ n) = w2 @ n"
    using u w2 hd_w2 class_facts(5) by (auto intro!: run_then_rest)
  have all_w2: "\<And>x. x \<in> set w2 \<Longrightarrow> isSpace x"
    using w2 by (simp add: list_all_iff)
  have t2: "takeWhile isSpace (w2 @ n) = w2 @ takeWhile isSpace n"
    and s4: "dropWhile isSpace (w2 @ n) = dropWhile isSpace n"
    using all_w2 by (simp_all add: takeWhile_append2 dropWhile_append2)
  have digit: "(case q @ w1 @ u @ w2 @ n of [] \<Rightarrow> False | c # _ \<Rightarrow> isDigit c)"
    using q by (cases q) auto
  show ?thesis
  proof (cases "dropWhile isSpace n = []")
    case False
    have "list_all isDot (dropWhile isSpace n)"
      using n(2) by (auto simp: list_all_iff dest: set_dropWhileD)
    then have "matchLine left = Some (q, u, dropWhile isSpace n)"
      using False digit w1 u w2
      by (simp add: matchLine_def Let_def s0 g1 s1 t1 s2 g2 s3 t2 s4)
    then show ?thesis
      by (simp add: trim_dropWhile)
  next
    case True
    then have spaces: "\<forall>c \<in> set n. isSpace c"
      by (simp add: dropWhile_eq_Nil_conv)
    then have tn: "takeWhile isSpace n = n"
      by (simp add: takeWhile_eq_all_conv)
    have len: "2 \<le> length (w2 @ n)"
      using w2 n by (cases w2; cases n) auto
    have lst: "last (w2 @ n) = last n"
      using n by simp
    have "isDot (last n)"
      using n by (simp add: list_all_iff)
    then have "matchLine left = Some (q, u, [last n])"
      using True digit w1 u w2 len lst
      by (simp add: matchLine_def Let_def s0 g1 s1 t1 s2 g2 s3 t2 s4 tn del: last_append)
    moreover have "trim [last n] = []" "trim n = []"
      using spaces n by (simp_all add: trim_empty_iff)
    ultimately show ?thesis by simp
  qed
qed

lemma matchLine_sound:
  assumes "matchLine left = Some (q, u, n)"
  shows "linePattern left q u n"
proof -
  define w0 where "w0 = takeWhile isSpace left"
  define s0 where "s0 = dropWhile isSpace left"
  define g1 where "g1 = takeWhile isNumChar s0"
  define s1 where "s1 = dropWhile isNumChar s0"
  define w1 where "w1 = takeWhile isSpace s1"
  define s2 where "s2 = dropWhile isSpace s1"
  define g2 where "g2 = takeWhile isAlpha s2"
  define s3 where "s3 = dropWhile isAlpha s2"
  define w2 where "w2 = takeWhile isSpace s3"
  define s4 where "s4 = dropWhile isSpace s3"
  note defs = w0_def s0_def g1_def s1_def w1_def s2_def g2_def s3_def w2_def s4_def
  have m: "matchLine left =
      (if (case s0 of [] \<Rightarrow> False | c # _ \<Rightarrow> isDigit c) \<and> w1 \<noteq> [] \<and> g2 \<noteq> [] \<and> w2 \<noteq> []
       then (if s4 \<noteq> []
             then (if list_all isDot s4 then Some (g1, g2, s4) else None)
             else (if 2 \<le> length w2 \<and> isDot (last w2) then Some (g1, g2, [last w2])
                   else None))
       else None)"
    unfolding matchLine_def Let_def defs by (rule refl)
  have cond: "(case s0 of [] \<Rightarrow> False | c # _ \<Rightarrow> isDigit c)" "w1 \<noteq> []" "g2 \<noteq> []" "w2 \<noteq> []"
    and qu: "q = g1" "u = g2"
    and tail: "(s4 \<noteq> [] \<and> list_all isDot s4 \<and> n = s4)
            \<or> (s4 = [] \<and> 2 \<le> length w2 \<and> isDot (last w2) \<and> n = [last w2])"
    using assms unfolding m by (simp_all split: if_splits)
  from cond(1) obtain c cs where s0: "s0 = c # cs" and c: "isDigit c"
    by (cases s0) auto
  have g1: "g1 \<noteq> []" "hd g1 = c"
    using c class_facts(2) by (simp_all add: s0 g1_def)
  have dec: "left = w0 @ s0" "s0 = g1 @ s1" "s1 = w1 @ s2" "s2 = g2 @ s3" "s3 = w2 @ s4"
    unfolding defs by simp_all
  have all: "list_all isSpace w0" "list_all isNumChar g1" "list_all isSpace w1"
    "list_all isAlpha g2" "list_all isSpace w2"
    unfolding w0_def g1_def w1_def g2_def w2_def
    by (auto simp: list_all_iff dest: set_takeWhileD)
  from tail show ?thesis
  proof
    assume a: "s4 \<noteq> [] \<and> list_all isDot s4 \<and> n = s4"
    have "left = w0 @ q @ w1 @ u @ w2 @ n"
      using a qu dec by simp
    then show ?thesis
      unfolding linePattern_def using a all cond g1 c qu
      by (intro exI [of _ w0] exI [of _ w1] exI [of _ w2]) simp
  next
    assume a: "s4 = [] \<and> 2 \<le> length w2 \<and> isDot (last w2) \<and> n = [last w2]"
    have split: "w2 = butlast w2 @ [last w2]"
      using cond(4) by simp
    have "s3 = butlast w2 @ n"
      using a dec(5) split by simp
    then have "left = w0 @ q @ w1 @ u @ butlast w2 @ n"
      using qu dec by simp
    moreover have "list_all isSpace (butlast w2)"
      using all(5) by (auto simp: list_all_iff dest: in_set_butlastD)
    moreover have "butlast w2 \<noteq> []"
      using a by (cases w2 rule: rev_cases) auto
    ultimately show ?thesis
      unfolding linePattern_def using a all cond g1 c qu
      by (intro exI [of _ w0] exI [of _ w1] exI [of _ "butlast w2"]) simp
  qed
qed


text \<open>
  C4, as the code has it. The category of the record made from a line is the trimmed right
  part when there is one and it is not empty after trimming, else \<open>Other\<close>; the right part ends
  at the second bar. When the left part matches the pattern with numeral \<open>q\<close>, unit \<open>u\<close> and
  rest \<open>n\<close>, the quantity is \<open>q\<close>, the unit is \<open>u\<close> and the name is \<open>n\<close> up to white space
  at its ends; when it does not match, the name is the trimmed left part and quantity and
  unit are empty.
\<close>

theorem handlePaste_line:
  "category (parseLine ids now k line) =
     (case rightPart line of
        None \<Rightarrow> ''Other''
      | Some r \<Rightarrow> if trim r \<noteq> [] then trim r else ''Other'')
   \<and> (linePattern (leftPart line) q u n \<longrightarrow>
        quantity (parseLine ids now k line) = Some q
        \<and> unit (parseLine ids now k line) = Some u
        \<and> trim (name (parseLine ids now k line)) = trim n)
   \<and> ((\<forall>q u n. \<not> linePattern (leftPart line) q u n) \<longrightarrow>
        name (parseLine ids now k line) = trim (leftPart line)
        \<and> quantity (parseLine ids now k line) = Some []
        \<and> unit (parseLine ids now k line) = Some [])"
proof (intro conjI impI)
  show "category (parseLine ids now k line) =
     (case rightPart line of
        None \<Rightarrow> ''Other''
      | Some r \<Rightarrow> if trim r \<noteq> [] then trim r else ''Other'')"
    by (rule parseLine_category)
next
  assume "linePattern (leftPart line) q u n"
  then obtain n' where m: "matchLine (leftPart line) = Some (q, u, n')" and t: "trim n' = trim n"
    using matchLine_complete by blast
  show "quantity (parseLine ids now k line) = Some q"
    and "unit (parseLine ids now k line) = Some u"
    and "trim (name (parseLine ids now k line)) = trim n"
    using parseLine_matched [OF m] t by simp_all
next
  assume no: "\<forall>q u n. \<not> linePattern (leftPart line) q u n"
  have m: "matchLine (leftPart line) = None"
  proof (cases "matchLine (leftPart line)")
    case None
    then show ?thesis .
  next
    case (Some r)
    obtain q u n where "r = (q, u, n)" by (cases r)
    with Some have "linePattern (leftPart line) q u n"
      by (simp add: matchLine_sound)
    with no show ?thesis by blast
  qed
  show "name (parseLine ids now k line) = trim (leftPart line)"
    and "quantity (parseLine ids now k line) = Some []"
    and "unit (parseLine ids now k line) = Some []"
    using parseLine_unmatched [OF m] by simp_all
qed

text \<open>
  The theorem on the two lines of the examples: \<open>2 lb chicken breast | Meat\<close> matches the
  pattern, \<open>carrots\<close> does not.
\<close>

theorem handlePaste_line_witness:
  "linePattern (leftPart ''2 lb chicken breast | Meat'') ''2'' ''lb'' ''chicken breast ''
   \<and> quantity (parseLine ids0 now0 0 ''2 lb chicken breast | Meat'') = Some ''2''
   \<and> unit (parseLine ids0 now0 0 ''2 lb chicken breast | Meat'') = Some ''lb''
   \<and> trim (name (parseLine ids0 now0 0 ''2 lb chicken breast | Meat'')) = ''chicken breast''
   \<and> category (parseLine ids0 now0 0 ''2 lb chicken breast | Meat'') = ''Meat''
   \<and> (\<forall>q u n. \<not> linePattern (leftPart ''carrots'') q u n)
   \<and> name (parseLine ids0 now0 0 ''carrots'') = ''carrots''
   \<and> quantity (parseLine ids0 now0 0 ''carrots'') = Some []
   \<and> unit (parseLine ids0 now0 0 ''carrots'') = Some []
   \<and> category (parseLine ids0 now0 0 ''carrots'') = ''Other''"
proof -
  have "matchLine (leftPart ''2 lb chicken breast | Meat'') = Some (''2'', ''lb'', ''chicken breast '')"
    by code_simp
  then have p: "linePattern (leftPart ''2 lb chicken breast | Meat'') ''2'' ''lb'' ''chicken breast ''"
    by (rule matchLine_sound)
  have "matchLine (leftPart ''carrots'') = None"
    by code_simp
  then have np: "\<forall>q u n. \<not> linePattern (leftPart ''carrots'') q u n"
    using matchLine_complete by fastforce
  have e: "trim ''chicken breast '' = ''chicken breast''" "trim (leftPart ''carrots'') = ''carrots''"
    "(case rightPart ''2 lb chicken breast | Meat'' of None \<Rightarrow> ''Other''
      | Some r \<Rightarrow> if trim r \<noteq> [] then trim r else ''Other'') = ''Meat''"
    "(case rightPart ''carrots'' of None \<Rightarrow> ''Other''
      | Some r \<Rightarrow> if trim r \<noteq> [] then trim r else ''Other'') = ''Other''"
    by code_simp+
  show ?thesis
    using handlePaste_line [of ids0 now0 0 "''2 lb chicken breast | Meat''" "''2''" "''lb''" "''chicken breast ''"]
      handlePaste_line [of ids0 now0 0 "''carrots''"] p np
    by (simp only: e) blast
qed

text \<open>
  C4 as it is stated splits the line at the first bar only, so that the right part of
  \<open>a|b|c\<close> would be \<open>b|c\<close>, and gives the name \<open>chicken breast\<close> for
  \<open>2 lb chicken breast | Meat\<close>. The code takes \<open>b\<close> for the category, and the name keeps
  the space that stands before the bar.
\<close>

theorem handlePaste_line_counterexample:
  "map category (handlePaste_parsed ids0 now0 ''a|b|c'') = [''b'']
   \<and> map name (handlePaste_parsed ids0 now0 ''2 lb chicken breast | Meat'') = [''chicken breast '']"
  by code_simp

end
